theory Spec2Isabelle
  imports Main "HOL-Library.Word" "HOL-Library.Signed_Division"
begin

section \<open>The Victor DMM driver (hardware/victor-dmm/api.c)\<close>

subsection \<open>Data model\<close>

text \<open>Return codes of the driver entry points (libsigrok.h).\<close>

datatype sr_ret = SR_OK | SR_ERR | SR_ERR_MALLOC | SR_ERR_ARG

text \<open>The device instance status, \<open>sdi->status\<close>.\<close>

datatype sr_status = SR_ST_INACTIVE | SR_ST_ACTIVE | SR_ST_STOPPING

text \<open>
  The \<open>hwcap\<close> argument of \<open>hw_dev_config_set\<close>. The numeric values of the
  capabilities are declared in libsigrok.h; the four the driver lists in \<open>hwcaps\<close> are
  constructors of their own, every other integer is \<open>SR_HWCAP_OTHER\<close>.
\<close>

datatype hwcap =
    SR_HWCAP_MULTIMETER
  | SR_HWCAP_LIMIT_MSEC
  | SR_HWCAP_LIMIT_SAMPLES
  | SR_HWCAP_CONTINUOUS
  | SR_HWCAP_OTHER int

text \<open>
  Packets handed to \<open>sr_session_send\<close>: the header with its \<open>feed_version\<close>, the analog
  metadata with its \<open>num_probes\<close>, and the end marker.
\<close>

datatype packet = SR_DF_HEADER nat | SR_DF_META_ANALOG nat | SR_DF_END

text \<open>
  The calls the driver makes to the session bus and to libusb for submitting, in the
  order in which it makes them: \<open>sr_session_send\<close> with its packet and
  \<open>libusb_submit_transfer\<close> with its transfer.
\<close>

datatype lib_call = SessionSend packet | SubmitTransfer nat

text \<open>The completion status libusb reports in \<open>transfer->status\<close>.\<close>

datatype transfer_status =
    LIBUSB_TRANSFER_COMPLETED
  | LIBUSB_TRANSFER_ERROR
  | LIBUSB_TRANSFER_TIMED_OUT
  | LIBUSB_TRANSFER_CANCELLED
  | LIBUSB_TRANSFER_STALL
  | LIBUSB_TRANSFER_NO_DEVICE
  | LIBUSB_TRANSFER_OVERFLOW

text \<open>
  One libusb transfer together with the receive buffer that was allocated for it. The
  store of all transfers the driver ever allocated is a list; a transfer is named by its
  index, and so is its buffer: a pointer to a buffer is the index of the transfer the
  buffer was allocated for. \<open>in_flight\<close> says that the transfer is submitted to
  libusb and not yet completed; \<open>transfer_frees\<close> counts the calls of
  \<open>libusb_free_transfer\<close> on the transfer and \<open>buffer_frees\<close> the calls of
  \<open>g_free\<close> with a pointer to its buffer.
\<close>

record transfer =
  buf_size :: nat
  req_length :: nat
  timeout_ms :: nat
  in_flight :: bool
  transfer_frees :: nat
  buffer_frees :: nat

text \<open>
  The driver and one device instance. \<open>di_priv\<close> is \<open>di->priv != NULL\<close>, \<open>devhdl\<close> is
  \<open>devc->usb->devhdl != NULL\<close>. The struct \<open>dev_context\<close> is declared in protocol.h;
  its counters and limits are taken as 64-bit words, as api.c uses them (\<open>PRIu64\<close>,
  the \<open>int64_t\<close> and \<open>uint64_t\<close> reads in \<open>hw_dev_config_set\<close>, \<open>gint64\<close> for the
  time). \<open>usbfd\<close> is the array up to and including what \<open>hw_dev_acquisition_start\<close>
  wrote. \<open>sources\<close> are the event sources registered with the session (fd, events,
  timeout), \<open>session\<close> the packets sent to the session bus, oldest first, and
  \<open>calls\<close> the sends and the submissions in the order of the calls.
\<close>

record state =
  di_priv :: bool
  status :: sr_status
  devhdl :: bool
  limit_samples :: "64 word"
  limit_msec :: "64 word"
  num_samples :: "64 word"
  end_time :: "64 word"
  usbfd :: "int list"
  sources :: "(int \<times> int \<times> nat) list"
  session :: "packet list"
  calls :: "lib_call list"
  transfers :: "transfer list"

text \<open>
  What \<open>hw_dev_open\<close> meets in the USB subsystem: whether a device with the recorded
  bus and address is in the list, and the outcomes of the libusb calls.
\<close>

record open_env =
  dev_found :: bool
  open_ok :: bool
  kernel_driver_active :: bool
  detach_ok :: bool
  claim_ok :: bool

text \<open>
  A completion libusb delivers to \<open>receive_transfer\<close>: the transfer, its status, its
  \<open>actual_length\<close>, whether a \<open>libusb_submit_transfer\<close> of it would succeed, and
  what a read of the field \<open>buffer\<close> yields once the transfer is freed: a pointer to
  some buffer of the store, or \<open>None\<close> for a value that points to none of them.
\<close>

record completion =
  c_transfer :: nat
  c_status :: transfer_status
  c_length :: int
  c_resubmit_ok :: bool
  c_stale :: "nat option"

subsection \<open>The device record as \<open>hw_scan\<close> creates it\<close>

text \<open>
  \<open>hw_scan\<close> runs only with an initialised driver, creates the instance with
  \<open>SR_ST_INACTIVE\<close>, a zeroed \<open>dev_context\<close> and a USB instance without handle.
\<close>

definition scanned :: state where
  "scanned = \<lparr> di_priv = True, status = SR_ST_INACTIVE, devhdl = False,
     limit_samples = 0, limit_msec = 0, num_samples = 0, end_time = 0,
     usbfd = [], sources = [], session = [], calls = [], transfers = [] \<rparr>"

subsection \<open>hw_dev_open and hw_dev_close\<close>

text \<open>
  In \<open>hw_dev_open\<close> the test \<open>!devlist[i]\<close> comes after
  \<open>libusb_free_device_list\<close>; it is taken to see the entry at which the loop
  stopped, so that it fails exactly when no device matched.
\<close>

definition hw_dev_open :: "state \<Rightarrow> open_env \<Rightarrow> sr_ret \<times> state" where
  "hw_dev_open s e =
     (if \<not> di_priv s then (SR_ERR, s)
      else if dev_found e \<and> \<not> open_ok e then (SR_ERR, s)
      else if \<not> dev_found e then (SR_ERR, s)
      else let s1 = s\<lparr>devhdl := True\<rparr> in
        if kernel_driver_active e \<and> \<not> detach_ok e then (SR_ERR, s1)
        else if \<not> claim_ok e then (SR_ERR, s1)
        else (SR_OK, s1\<lparr>status := SR_ST_ACTIVE\<rparr>))"

definition hw_dev_close :: "state \<Rightarrow> sr_ret \<times> state" where
  "hw_dev_close s =
     (if \<not> di_priv s then (SR_ERR, s)
      else if \<not> devhdl s then (SR_OK, s)
      else (SR_OK, s\<lparr>devhdl := False, status := SR_ST_INACTIVE\<rparr>))"

subsection \<open>hw_dev_config_set\<close>

text \<open>
  \<open>g_get_monotonic_time() / 1000\<close>: the clock is a \<open>gint64\<close> in microseconds and C
  division truncates towards zero.
\<close>

definition msec_of_usec :: "64 word \<Rightarrow> 64 word" where
  "msec_of_usec t = word_of_int (sint t sdiv 1000)"

text \<open>
  \<open>val\<close> is the 64-bit object \<open>value\<close> points to; \<open>mono_us\<close> is what
  \<open>g_get_monotonic_time\<close> returns when the time limit branch reads the clock.
\<close>

definition hw_dev_config_set ::
  "state \<Rightarrow> hwcap \<Rightarrow> 64 word \<Rightarrow> 64 word \<Rightarrow> sr_ret \<times> state" where
  "hw_dev_config_set s cap val mono_us =
     (if \<not> di_priv s then (SR_ERR, s)
      else if status s \<noteq> SR_ST_ACTIVE then (SR_ERR, s)
      else case cap of
          SR_HWCAP_LIMIT_MSEC \<Rightarrow>
            (SR_OK, s\<lparr>limit_msec := val, end_time := msec_of_usec mono_us + val\<rparr>)
        | SR_HWCAP_LIMIT_SAMPLES \<Rightarrow> (SR_OK, s\<lparr>limit_samples := val\<rparr>)
        | _ \<Rightarrow> (SR_ERR_ARG, s))"

subsection \<open>hw_dev_acquisition_stop\<close>

definition hw_dev_acquisition_stop :: "state \<Rightarrow> sr_ret \<times> state" where
  "hw_dev_acquisition_stop s =
     (if \<not> di_priv s then (SR_ERR, s)
      else if status s \<noteq> SR_ST_ACTIVE then (SR_ERR, s)
      else (SR_OK, s\<lparr>status := SR_ST_STOPPING\<rparr>))"

subsection \<open>receive_transfer\<close>

text \<open>The store of transfers, and what libusb does to the flight of a transfer.\<close>

definition on_transfer :: "(transfer \<Rightarrow> transfer) \<Rightarrow> nat \<Rightarrow> state \<Rightarrow> state" where
  "on_transfer f i s = s\<lparr>transfers := (transfers s)[i := f (transfers s ! i)]\<rparr>"

definition submitted :: "transfer \<Rightarrow> transfer" where
  "submitted t = t\<lparr>in_flight := True\<rparr>"

definition completed :: "transfer \<Rightarrow> transfer" where
  "completed t = t\<lparr>in_flight := False\<rparr>"

text \<open>
  \<open>libusb_submit_transfer(transfer)\<close>: the call is noted; when it succeeds the transfer
  is in flight.
\<close>

definition libusb_submit_transfer :: "nat \<Rightarrow> bool \<Rightarrow> state \<Rightarrow> state" where
  "libusb_submit_transfer i ok s =
     (let s1 = s\<lparr>calls := calls s @ [SubmitTransfer i]\<rparr>
      in if ok then on_transfer submitted i s1 else s1)"

text \<open>\<open>libusb_free_transfer(transfer)\<close> frees the transfer, not its buffer.\<close>

definition libusb_free_transfer :: "nat \<Rightarrow> state \<Rightarrow> state" where
  "libusb_free_transfer i s =
     on_transfer (\<lambda>t. t\<lparr>transfer_frees := Suc (transfer_frees t)\<rparr>) i s"

text \<open>
  \<open>g_free(p)\<close> frees the buffer \<open>p\<close> points to; with a pointer to no buffer of the
  store, no buffer of the store is freed.
\<close>

definition g_free :: "nat option \<Rightarrow> state \<Rightarrow> state" where
  "g_free p s =
     (case p of
        None \<Rightarrow> s
      | Some b \<Rightarrow> on_transfer (\<lambda>t. t\<lparr>buffer_frees := Suc (buffer_frees t)\<rparr>) b s)"

text \<open>
  The expression \<open>transfer->buffer\<close>: a transfer that is not freed holds the pointer to
  its own buffer; the field of a freed transfer is freed memory, and the read yields
  \<open>stale\<close>, whatever that memory holds by then.
\<close>

definition transfer_buffer :: "state \<Rightarrow> nat \<Rightarrow> nat option \<Rightarrow> nat option" where
  "transfer_buffer s i stale =
     (if i < length (transfers s) \<and> transfer_frees (transfers s ! i) = 0
      then Some i else stale)"

text \<open>\<open>sr_session_send\<close>: the packet goes to the session bus, and the call is noted.\<close>

definition sr_session_send :: "packet \<Rightarrow> state \<Rightarrow> state" where
  "sr_session_send p s =
     s\<lparr>session := session s @ [p], calls := calls s @ [SessionSend p]\<rparr>"

text \<open>Lines 320 to 334: the status of the completion is looked at.\<close>

definition rt_outcome :: "state \<Rightarrow> transfer_status \<Rightarrow> int \<Rightarrow> state" where
  "rt_outcome s st len =
     (if st = LIBUSB_TRANSFER_NO_DEVICE then snd (hw_dev_acquisition_stop s)
      else if st = LIBUSB_TRANSFER_COMPLETED then
        (if len = 14 then
           let s1 = s\<lparr>num_samples := num_samples s + 1\<rparr> in
           if limit_samples s1 \<noteq> 0 then
             (if limit_samples s1 \<le> num_samples s1
              then snd (hw_dev_acquisition_stop s1) else s1)
           else s1
         else s)
      else s)"

text \<open>
  The two statements \<open>libusb_free_transfer(transfer); g_free(transfer->buffer);\<close> of
  lines 342 to 343 and 349 to 350, in this order: the pointer handed to \<open>g_free\<close> is
  read from the transfer after the transfer is freed.
\<close>

definition rt_cleanup :: "state \<Rightarrow> nat \<Rightarrow> nat option \<Rightarrow> state" where
  "rt_cleanup s i stale =
     (let s1 = libusb_free_transfer i s
      in g_free (transfer_buffer s1 i stale) s1)"

text \<open>Lines 338 to 351: the transfer is sent again, or cleaned up.\<close>

definition rt_resubmit :: "state \<Rightarrow> nat \<Rightarrow> bool \<Rightarrow> nat option \<Rightarrow> state" where
  "rt_resubmit s i resubmit_ok stale =
     (if status s = SR_ST_ACTIVE then
        (let s1 = libusb_submit_transfer i resubmit_ok s
         in if resubmit_ok then s1
            else snd (hw_dev_acquisition_stop (rt_cleanup s1 i stale)))
      else rt_cleanup s i stale)"

definition receive_transfer ::
  "state \<Rightarrow> nat \<Rightarrow> transfer_status \<Rightarrow> int \<Rightarrow> bool \<Rightarrow> nat option \<Rightarrow> state" where
  "receive_transfer s i st len resubmit_ok stale =
     rt_resubmit (rt_outcome s st len) i resubmit_ok stale"

subsection \<open>handle_events\<close>

text \<open>
  libusb takes a completed transfer out of flight and calls its callback.
  \<open>libusb_handle_events_timeout_completed\<close> does so for each completion that is due.
\<close>

definition libusb_complete :: "state \<Rightarrow> completion \<Rightarrow> state" where
  "libusb_complete s c =
     receive_transfer (on_transfer completed (c_transfer c) s)
       (c_transfer c) (c_status c) (c_length c) (c_resubmit_ok c) (c_stale c)"

fun libusb_handle_events :: "state \<Rightarrow> completion list \<Rightarrow> state" where
  "libusb_handle_events s [] = s"
| "libusb_handle_events s (c # cs) = libusb_handle_events (libusb_complete s c) cs"

text \<open>Lines 370 to 374. The clock is read only with a nonzero time limit.\<close>

definition deadline_check :: "state \<Rightarrow> 64 word \<Rightarrow> state" where
  "deadline_check s mono_us =
     (if limit_msec s \<noteq> 0 then
        (if end_time s <s msec_of_usec mono_us
         then snd (hw_dev_acquisition_stop s) else s)
      else s)"

text \<open>Lines 376 to 384.\<close>

definition sr_source_remove :: "int \<Rightarrow> state \<Rightarrow> state" where
  "sr_source_remove fd s = s\<lparr>sources := filter (\<lambda>src. fst src \<noteq> fd) (sources s)\<rparr>"

definition stopping_cleanup :: "state \<Rightarrow> state" where
  "stopping_cleanup s =
     (if status s = SR_ST_STOPPING then
        let s1 = fold sr_source_remove (takeWhile (\<lambda>fd. fd \<noteq> - 1) (usbfd s)) s;
            s2 = snd (hw_dev_close s1)
        in sr_session_send SR_DF_END s2
      else s)"

definition handle_events :: "state \<Rightarrow> 64 word \<Rightarrow> completion list \<Rightarrow> state" where
  "handle_events s mono_us cs =
     libusb_handle_events (stopping_cleanup (deadline_check s mono_us)) cs"

subsection \<open>hw_dev_acquisition_start\<close>

text \<open>
  Lines 414 to 425: header and metadata go to the session bus. (\<open>cb_data\<close>, stored
  before, is the handle of the one session and is not part of the state.)
\<close>

definition start_notify :: "state \<Rightarrow> state" where
  "start_notify s = sr_session_send (SR_DF_META_ANALOG 1) (sr_session_send (SR_DF_HEADER 1) s)"

text \<open>
  Lines 427 to 435: each pollfd of libusb (fd, events) becomes a source polled every
  100 ms, and its fd is noted in \<open>usbfd\<close>, closed by -1.
\<close>

definition start_sources :: "(int \<times> int) list \<Rightarrow> state \<Rightarrow> state" where
  "start_sources pfd s =
     s\<lparr>sources := sources s @ map (\<lambda>p. (fst p, snd p, 100)) pfd,
       usbfd := map fst pfd @ [- 1]\<rparr>"

text \<open>
  Lines 437 to 450: a 14-byte buffer and a transfer are allocated (both allocations are
  taken to succeed; the code does not test them), the transfer is filled and submitted.
  When the submission fails, \<open>libusb_free_transfer(transfer); g_free(buf);\<close> frees the
  transfer and, through the local pointer \<open>buf\<close>, its buffer.
\<close>

definition new_transfer :: transfer where
  "new_transfer = \<lparr> buf_size = 14, req_length = 14, timeout_ms = 100,
     in_flight = False, transfer_frees = 0, buffer_frees = 0 \<rparr>"

definition start_submit :: "bool \<Rightarrow> state \<Rightarrow> sr_ret \<times> state" where
  "start_submit submit_ok s =
     (let i = length (transfers s);
          s1 = s\<lparr>transfers := transfers s @ [new_transfer]\<rparr>;
          s2 = libusb_submit_transfer i submit_ok s1
      in if submit_ok then (SR_OK, s2)
         else (SR_ERR, g_free (Some i) (libusb_free_transfer i s2)))"

definition hw_dev_acquisition_start ::
  "state \<Rightarrow> (int \<times> int) list \<Rightarrow> bool \<Rightarrow> sr_ret \<times> state" where
  "hw_dev_acquisition_start s pfd submit_ok =
     (if \<not> di_priv s then (SR_ERR, s)
      else start_submit submit_ok (start_sources pfd (start_notify s)))"

subsection \<open>Executions\<close>

text \<open>
  What can happen to a device record: the calls of the host and the ticks of the event
  loop. \<open>EvStart\<close> carries the clock at the call, which
  \<open>hw_dev_acquisition_start\<close> does not read.
\<close>

datatype event =
    EvOpen open_env
  | EvClose
  | EvConfigSet hwcap "64 word" "64 word"
  | EvStart "64 word" "(int \<times> int) list" bool
  | EvStop
  | EvTick "64 word" "completion list"

fun step :: "state \<Rightarrow> event \<Rightarrow> state" where
  "step s (EvOpen e) = snd (hw_dev_open s e)"
| "step s EvClose = snd (hw_dev_close s)"
| "step s (EvConfigSet cap val mono_us) = snd (hw_dev_config_set s cap val mono_us)"
| "step s (EvStart mono_us pfd submit_ok) = snd (hw_dev_acquisition_start s pfd submit_ok)"
| "step s EvStop = snd (hw_dev_acquisition_stop s)"
| "step s (EvTick mono_us cs) = handle_events s mono_us cs"

text \<open>libusb completes only transfers that are in flight.\<close>

fun completions_ok :: "state \<Rightarrow> completion list \<Rightarrow> bool" where
  "completions_ok s [] = True"
| "completions_ok s (c # cs) =
     (c_transfer c < length (transfers s) \<and> in_flight (transfers s ! c_transfer c)
      \<and> completions_ok (libusb_complete s c) cs)"

fun event_ok :: "state \<Rightarrow> event \<Rightarrow> bool" where
  "event_ok s (EvTick mono_us cs) =
     completions_ok (stopping_cleanup (deadline_check s mono_us)) cs"
| "event_ok s _ = True"

fun run :: "state \<Rightarrow> event list \<Rightarrow> state option" where
  "run s [] = Some s"
| "run s (e # es) = (if event_ok s e then run (step s e) es else None)"

subsection \<open>Completions that count, and scenarios\<close>

text \<open>A completion with status completed and all 14 bytes.\<close>

definition full_packet :: "completion \<Rightarrow> bool" where
  "full_packet c = (c_status c = LIBUSB_TRANSFER_COMPLETED \<and> c_length c = 14)"

fun full_packets :: "event \<Rightarrow> nat" where
  "full_packets (EvTick mono_us cs) = length (filter full_packet cs)"
| "full_packets _ = 0"

text \<open>The packets among the calls.\<close>

fun sent_packets :: "lib_call list \<Rightarrow> packet list" where
  "sent_packets [] = []"
| "sent_packets (SessionSend p # cs) = p # sent_packets cs"
| "sent_packets (SubmitTransfer i # cs) = sent_packets cs"

text \<open>
  The events of a running acquisition: limits are set, a stop is requested, the event
  loop ticks. The record is neither opened, closed nor started again.
\<close>

fun acq_event :: "event \<Rightarrow> bool" where
  "acq_event (EvConfigSet cap val mono_us) = True"
| "acq_event EvStop = True"
| "acq_event (EvTick mono_us cs) = True"
| "acq_event _ = False"

text \<open>Events that neither open the device again nor set the sample limit.\<close>

fun keeps_budget :: "event \<Rightarrow> bool" where
  "keeps_budget (EvOpen e) = False"
| "keeps_budget (EvConfigSet cap val mono_us) = (cap \<noteq> SR_HWCAP_LIMIT_SAMPLES)"
| "keeps_budget _ = True"

text \<open>A completion that by itself ends nothing: the device is there and the
  transfer can be sent again.\<close>

definition benign :: "completion \<Rightarrow> bool" where
  "benign c = (c_status c \<noteq> LIBUSB_TRANSFER_NO_DEVICE \<and> c_resubmit_ok c)"

text \<open>Concrete inputs: a USB subsystem where every call succeeds, one pollfd, a full
  packet and a timeout on transfer \<open>i\<close>, both with the pointer to the buffer of \<open>i\<close>
  still in the freed transfer.\<close>

definition usb_ok :: open_env where
  "usb_ok = \<lparr> dev_found = True, open_ok = True, kernel_driver_active = True,
     detach_ok = True, claim_ok = True \<rparr>"

definition pfd1 :: "(int \<times> int) list" where
  "pfd1 = [(3, 1)]"

definition packet14 :: "nat \<Rightarrow> completion" where
  "packet14 i = \<lparr> c_transfer = i, c_status = LIBUSB_TRANSFER_COMPLETED,
     c_length = 14, c_resubmit_ok = True, c_stale = Some i \<rparr>"

definition timed_out :: "nat \<Rightarrow> completion" where
  "timed_out i = \<lparr> c_transfer = i, c_status = LIBUSB_TRANSFER_TIMED_OUT,
     c_length = 0, c_resubmit_ok = True, c_stale = Some i \<rparr>"

text \<open>An opened device with one transfer in flight and the counter at its maximum.\<close>

definition wrap_state :: state where
  "wrap_state = scanned\<lparr>status := SR_ST_ACTIVE, devhdl := True, num_samples := - 1,
     transfers := [submitted new_transfer]\<rparr>"

text \<open>The device is opened and started once: one transfer is in flight.\<close>

definition started_once :: "event list" where
  "started_once = [EvOpen usb_ok, EvStart 0 pfd1 True]"

text \<open>
  A time limit of 5000 ms set at clock 0, one acquisition with one sample, stopped;
  then the device is opened and started again at 9000 ms.
\<close>

definition two_acquisitions :: "event list" where
  "two_acquisitions =
     [EvOpen usb_ok, EvConfigSet SR_HWCAP_LIMIT_MSEC 5000 0, EvStart 1000000 pfd1 True,
      EvTick 2000000 [packet14 0], EvStop, EvTick 2100000 [timed_out 0],
      EvOpen usb_ok, EvStart 9000000 pfd1 True]"

text \<open>A time limit of 5000 ms set at clock 0 and a start at 7000 ms.\<close>

definition late_start :: "event list" where
  "late_start =
     [EvOpen usb_ok, EvConfigSet SR_HWCAP_LIMIT_MSEC 5000 0, EvStart 7000000 pfd1 True]"

text \<open>
  A sample limit of 2: the first acquisition takes two samples and stops; the device is
  opened and started again.
\<close>

definition budget_two_again :: "event list" where
  "budget_two_again =
     [EvOpen usb_ok, EvConfigSet SR_HWCAP_LIMIT_SAMPLES 2 0, EvStart 0 pfd1 True,
      EvTick 100000 [packet14 0], EvTick 200000 [packet14 0], EvTick 300000 [],
      EvOpen usb_ok, EvStart 400000 pfd1 True]"

text \<open>
  A sample limit of 2 set on the opened device, and the first acquisition up to its
  first sample.
\<close>

definition budget_two_set :: "event list" where
  "budget_two_set = [EvOpen usb_ok, EvConfigSet SR_HWCAP_LIMIT_SAMPLES 2 0]"

definition first_sample :: "event list" where
  "first_sample = [EvStart 0 pfd1 True, EvTick 100000 [packet14 0]]"

text \<open>An acquisition with one sample, a stop request, and the last tick.\<close>

definition sample_then_stop :: "event list" where
  "sample_then_stop =
     [EvTick 100000 [packet14 0], EvStop, EvTick 200000 [timed_out 0]]"

text \<open>
  A timeout on transfer \<open>i\<close> where the freed transfer does not hold the pointer to the
  buffer any more, and an acquisition that is stopping with its transfer in flight and
  then receives it.
\<close>

definition lost_pointer :: "nat \<Rightarrow> completion" where
  "lost_pointer i = \<lparr> c_transfer = i, c_status = LIBUSB_TRANSFER_TIMED_OUT,
     c_length = 0, c_resubmit_ok = True, c_stale = None \<rparr>"

definition stopping_in_flight :: "event list" where
  "stopping_in_flight = [EvOpen usb_ok, EvStart 0 pfd1 True, EvStop]"

definition last_completion :: "event list" where
  "last_completion = stopping_in_flight @ [EvTick 100000 [lost_pointer 0]]"

text \<open>
  The host closes the device while the acquisition is stopping, and the event loop
  ticks on; and the host starts twice.
\<close>

definition closed_while_stopping :: "event list" where
  "closed_while_stopping =
     [EvOpen usb_ok, EvStart 0 pfd1 True, EvStop, EvClose, EvTick 100000 [timed_out 0],
      EvTick 200000 []]"

definition started_twice :: "event list" where
  "started_twice = [EvOpen usb_ok, EvStart 0 pfd1 True, EvStart 100000 pfd1 True]"

section \<open>Properties\<close>

subsection \<open>Auxiliary facts\<close>

lemmas api_defs = hw_dev_open_def hw_dev_close_def hw_dev_config_set_def
  hw_dev_acquisition_stop_def rt_outcome_def rt_cleanup_def rt_resubmit_def
  receive_transfer_def libusb_complete_def deadline_check_def stopping_cleanup_def
  handle_events_def start_notify_def start_sources_def start_submit_def
  hw_dev_acquisition_start_def libusb_submit_transfer_def sr_session_send_def
  on_transfer_def

lemmas start_defs = hw_dev_acquisition_start_def start_submit_def start_sources_def
  start_notify_def libusb_submit_transfer_def libusb_free_transfer_def g_free_def
  sr_session_send_def on_transfer_def

lemma fold_sr_source_remove:
  "fold sr_source_remove fds s =
     s\<lparr>sources := filter (\<lambda>src. fst src \<notin> set fds) (sources s)\<rparr>"
proof (induction fds arbitrary: s)
  case Nil
  then show ?case by simp
next
  case (Cons fd fds)
  have "filter (\<lambda>src. fst src \<notin> set fds) (filter (\<lambda>src. fst src \<noteq> fd) (sources s))
      = filter (\<lambda>src. fst src \<notin> set (fd # fds)) (sources s)"
    by (induction "sources s") auto
  with Cons show ?case by (simp add: sr_source_remove_def)
qed

text \<open>Freeing touches the store of transfers only.\<close>

lemma frame_free_transfer [simp]:
  "di_priv (libusb_free_transfer i s) = di_priv s"
  "status (libusb_free_transfer i s) = status s"
  "devhdl (libusb_free_transfer i s) = devhdl s"
  "limit_samples (libusb_free_transfer i s) = limit_samples s"
  "limit_msec (libusb_free_transfer i s) = limit_msec s"
  "num_samples (libusb_free_transfer i s) = num_samples s"
  "end_time (libusb_free_transfer i s) = end_time s"
  "session (libusb_free_transfer i s) = session s"
  "calls (libusb_free_transfer i s) = calls s"
  by (simp_all add: libusb_free_transfer_def on_transfer_def)

lemma frame_g_free [simp]:
  "di_priv (g_free p s) = di_priv s"
  "status (g_free p s) = status s"
  "devhdl (g_free p s) = devhdl s"
  "limit_samples (g_free p s) = limit_samples s"
  "limit_msec (g_free p s) = limit_msec s"
  "num_samples (g_free p s) = num_samples s"
  "end_time (g_free p s) = end_time s"
  "session (g_free p s) = session s"
  "calls (g_free p s) = calls s"
  by (simp_all add: g_free_def on_transfer_def split: option.splits)

lemma frame_cleanup [simp]:
  "di_priv (rt_cleanup s i stale) = di_priv s"
  "status (rt_cleanup s i stale) = status s"
  "devhdl (rt_cleanup s i stale) = devhdl s"
  "limit_samples (rt_cleanup s i stale) = limit_samples s"
  "limit_msec (rt_cleanup s i stale) = limit_msec s"
  "num_samples (rt_cleanup s i stale) = num_samples s"
  "end_time (rt_cleanup s i stale) = end_time s"
  "session (rt_cleanup s i stale) = session s"
  "calls (rt_cleanup s i stale) = calls s"
  by (simp_all add: rt_cleanup_def Let_def)

text \<open>The driver stays initialised during the life of a device record.\<close>

lemma di_priv_complete [simp]: "di_priv (libusb_complete s c) = di_priv s"
  by (simp add: api_defs Let_def)

lemma di_priv_handle [simp]: "di_priv (libusb_handle_events s cs) = di_priv s"
  by (induction cs arbitrary: s) simp_all

lemma di_priv_step [simp]: "di_priv (step s e) = di_priv s"
  by (cases e) (simp_all add: api_defs Let_def fold_sr_source_remove split: hwcap.splits)

lemma run_di_priv: "run s es = Some s' \<Longrightarrow> di_priv s' = di_priv s"
  by (induction es arbitrary: s) (auto split: if_splits)

lemma run_scanned_di_priv: "run scanned es = Some s \<Longrightarrow> di_priv s"
  using run_di_priv [of scanned es s] by (simp add: scanned_def)

text \<open>The counter moves only in the outcome part of the completion handler.\<close>

lemma num_samples_stop [simp]:
  "num_samples (snd (hw_dev_acquisition_stop s)) = num_samples s"
  by (simp add: hw_dev_acquisition_stop_def)

lemma num_samples_outcome:
  "num_samples (rt_outcome s st len)
     = num_samples s + (if st = LIBUSB_TRANSFER_COMPLETED \<and> len = 14 then 1 else 0)"
  by (simp add: rt_outcome_def Let_def)

lemma num_samples_resubmit [simp]:
  "num_samples (rt_resubmit s i ok stale) = num_samples s"
  by (simp add: rt_resubmit_def libusb_submit_transfer_def on_transfer_def Let_def)

lemma num_samples_receive:
  "num_samples (receive_transfer s i st len ok stale)
     = num_samples s + (if st = LIBUSB_TRANSFER_COMPLETED \<and> len = 14 then 1 else 0)"
  by (simp add: receive_transfer_def num_samples_outcome)

lemma num_samples_complete:
  "num_samples (libusb_complete s c) = num_samples s + (if full_packet c then 1 else 0)"
  by (simp add: libusb_complete_def num_samples_receive full_packet_def on_transfer_def)

lemma num_samples_handle:
  "num_samples (libusb_handle_events s cs)
     = num_samples s + of_nat (length (filter full_packet cs))"
  by (induction cs arbitrary: s) (simp_all add: num_samples_complete)

lemma num_samples_cleanup [simp]: "num_samples (stopping_cleanup s) = num_samples s"
  by (simp add: stopping_cleanup_def Let_def fold_sr_source_remove hw_dev_close_def
      sr_session_send_def)

lemma num_samples_deadline [simp]: "num_samples (deadline_check s t) = num_samples s"
  by (simp add: deadline_check_def)

lemma num_samples_start [simp]:
  "num_samples (snd (hw_dev_acquisition_start s pfd ok)) = num_samples s"
  by (simp add: start_defs Let_def)

lemma end_time_start [simp]:
  "end_time (snd (hw_dev_acquisition_start s pfd ok)) = end_time s"
  by (simp add: start_defs Let_def)

lemma limit_msec_start [simp]:
  "limit_msec (snd (hw_dev_acquisition_start s pfd ok)) = limit_msec s"
  by (simp add: start_defs Let_def)

lemma num_samples_step:
  "num_samples (step s e) = num_samples s + of_nat (full_packets e)"
  by (cases e)
    (simp_all add: num_samples_handle handle_events_def hw_dev_open_def hw_dev_close_def
      hw_dev_config_set_def Let_def split: hwcap.splits)

lemma word64_le_succ: "x \<noteq> - 1 \<Longrightarrow> (x :: 64 word) \<le> x + 1"
  by (meson inc_less_eq_triv_imp nle_le)

text \<open>What a completion leaves alone.\<close>

lemma frame_complete [simp]:
  "session (libusb_complete s c) = session s"
  "devhdl (libusb_complete s c) = devhdl s"
  "limit_samples (libusb_complete s c) = limit_samples s"
  "limit_msec (libusb_complete s c) = limit_msec s"
  "end_time (libusb_complete s c) = end_time s"
  by (simp_all add: api_defs Let_def)

lemma frame_handle [simp]:
  "session (libusb_handle_events s cs) = session s"
  "devhdl (libusb_handle_events s cs) = devhdl s"
  "limit_samples (libusb_handle_events s cs) = limit_samples s"
  "limit_msec (libusb_handle_events s cs) = limit_msec s"
  "end_time (libusb_handle_events s cs) = end_time s"
  by (induction cs arbitrary: s) simp_all

lemma status_complete:
  "status (libusb_complete s c) = status s
   \<or> status s = SR_ST_ACTIVE \<and> status (libusb_complete s c) = SR_ST_STOPPING"
  by (simp add: api_defs Let_def)

lemma status_handle:
  "status (libusb_handle_events s cs) = status s
   \<or> status s = SR_ST_ACTIVE \<and> status (libusb_handle_events s cs) = SR_ST_STOPPING"
proof (induction cs arbitrary: s)
  case Nil
  then show ?case by simp
next
  case (Cons c cs)
  from Cons [of "libusb_complete s c"] status_complete [of s c] show ?case
    by auto
qed

text \<open>A handle is open whenever the device is not inactive.\<close>

lemma devhdl_step:
  "status s \<noteq> SR_ST_INACTIVE \<longrightarrow> devhdl s
     \<Longrightarrow> status (step s e) \<noteq> SR_ST_INACTIVE \<longrightarrow> devhdl (step s e)"
proof (cases e)
  case (EvTick t cs)
  assume "status s \<noteq> SR_ST_INACTIVE \<longrightarrow> devhdl s"
  then have "status (stopping_cleanup (deadline_check s t)) \<noteq> SR_ST_INACTIVE
      \<longrightarrow> devhdl (stopping_cleanup (deadline_check s t))"
    by (auto simp: api_defs Let_def fold_sr_source_remove)
  with status_handle [of "stopping_cleanup (deadline_check s t)" cs] EvTick
  show ?thesis by (auto simp: handle_events_def)
qed (auto simp: api_defs Let_def split: hwcap.splits)

lemma run_devhdl:
  "run s es = Some s' \<Longrightarrow> status s \<noteq> SR_ST_INACTIVE \<longrightarrow> devhdl s
     \<Longrightarrow> status s' \<noteq> SR_ST_INACTIVE \<longrightarrow> devhdl s'"
proof (induction es arbitrary: s)
  case Nil
  then show ?case by simp
next
  case (Cons e es)
  from Cons.prems(1) have "run (step s e) es = Some s'"
    by (simp split: if_splits)
  with Cons.IH [of "step s e"] devhdl_step [OF Cons.prems(2), of e] show ?case
    by blast
qed

text \<open>The session during an acquisition.\<close>

lemma session_step:
  assumes "acq_event e" and "di_priv s" and "status s \<noteq> SR_ST_INACTIVE \<longrightarrow> devhdl s"
    and "session s = pre @ (if status s = SR_ST_INACTIVE then [SR_DF_END] else [])"
  shows "session (step s e)
      = pre @ (if status (step s e) = SR_ST_INACTIVE then [SR_DF_END] else [])"
proof (cases e)
  case (EvTick t cs)
  let ?s = "stopping_cleanup (deadline_check s t)"
  from assms(2-4) have "session ?s
      = pre @ (if status ?s = SR_ST_INACTIVE then [SR_DF_END] else [])"
    and "status ?s \<noteq> SR_ST_ACTIVE \<or> status s = SR_ST_ACTIVE"
    by (auto simp: api_defs Let_def fold_sr_source_remove)
  with status_handle [of ?s cs] EvTick show ?thesis
    by (auto simp: handle_events_def)
next
  case (EvConfigSet cap val t)
  with assms show ?thesis
    by (simp add: hw_dev_config_set_def split: hwcap.splits)
next
  case EvStop
  with assms show ?thesis
    by (auto simp: hw_dev_acquisition_stop_def)
qed (use assms in simp_all)

lemma session_run:
  assumes "run s es = Some s'" and "list_all acq_event es"
    and "di_priv s" and "status s \<noteq> SR_ST_INACTIVE \<longrightarrow> devhdl s"
    and "session s = pre @ (if status s = SR_ST_INACTIVE then [SR_DF_END] else [])"
  shows "session s' = pre @ (if status s' = SR_ST_INACTIVE then [SR_DF_END] else [])"
  using assms
proof (induction es arbitrary: s)
  case Nil
  then show ?case by simp
next
  case (Cons e es)
  from Cons.prems(1) have r: "run (step s e) es = Some s'"
    by (simp split: if_splits)
  from Cons.prems(2) have a: "acq_event e" and as: "list_all acq_event es"
    by simp_all
  show ?case
    using Cons.IH [OF r as _ devhdl_step [OF Cons.prems(4)]
        session_step [OF a Cons.prems(3) Cons.prems(4) Cons.prems(5)]]
      Cons.prems(3)
    by simp
qed

text \<open>The calls only grow, and the packets among them are the session.\<close>

lemma sent_packets_append [simp]:
  "sent_packets (xs @ ys) = sent_packets xs @ sent_packets ys"
  by (induction xs rule: sent_packets.induct) simp_all

lemma calls_complete:
  "\<exists>r. calls (libusb_complete s c) = calls s @ r \<and> sent_packets r = []"
  by (simp add: libusb_complete_def receive_transfer_def rt_resubmit_def rt_outcome_def
      hw_dev_acquisition_stop_def libusb_submit_transfer_def on_transfer_def Let_def)

lemma calls_handle:
  "\<exists>r. calls (libusb_handle_events s cs) = calls s @ r \<and> sent_packets r = []"
proof (induction cs arbitrary: s)
  case Nil
  then show ?case by simp
next
  case (Cons c cs)
  from calls_complete [of s c] obtain r1
    where r1: "calls (libusb_complete s c) = calls s @ r1" "sent_packets r1 = []"
    by blast
  from Cons [of "libusb_complete s c"] obtain r2
    where r2: "calls (libusb_handle_events (libusb_complete s c) cs)
        = calls (libusb_complete s c) @ r2" "sent_packets r2 = []"
    by blast
  from r1 r2 have "calls (libusb_handle_events s (c # cs)) = calls s @ (r1 @ r2)
      \<and> sent_packets (r1 @ r2) = []"
    by simp
  then show ?case by blast
qed

lemma calls_step:
  "\<exists>r. calls (step s e) = calls s @ r \<and> session (step s e) = session s @ sent_packets r"
proof (cases e)
  case (EvTick t cs)
  let ?s = "stopping_cleanup (deadline_check s t)"
  have "\<exists>r. calls ?s = calls s @ r \<and> session ?s = session s @ sent_packets r"
    by (simp add: stopping_cleanup_def deadline_check_def hw_dev_acquisition_stop_def
        hw_dev_close_def fold_sr_source_remove sr_session_send_def Let_def)
  then obtain r1 where r1: "calls ?s = calls s @ r1"
    "session ?s = session s @ sent_packets r1"
    by blast
  from calls_handle [of ?s cs] obtain r2
    where r2: "calls (libusb_handle_events ?s cs) = calls ?s @ r2" "sent_packets r2 = []"
    by blast
  from r1 r2 EvTick have "calls (step s e) = calls s @ (r1 @ r2)
      \<and> session (step s e) = session s @ sent_packets (r1 @ r2)"
    by (simp add: handle_events_def)
  then show ?thesis by blast
next
  case (EvStart t pfd ok)
  then show ?thesis
    by (simp add: start_defs Let_def)
next
  case (EvConfigSet cap val t)
  then show ?thesis
    by (cases cap) (simp_all add: hw_dev_config_set_def)
qed (simp_all add: hw_dev_open_def hw_dev_close_def hw_dev_acquisition_stop_def Let_def)

lemma calls_run:
  "run s es = Some s'
     \<Longrightarrow> \<exists>r. calls s' = calls s @ r \<and> session s' = session s @ sent_packets r"
proof (induction es arbitrary: s)
  case Nil
  then show ?case by simp
next
  case (Cons e es)
  from Cons.prems have "run (step s e) es = Some s'"
    by (simp split: if_splits)
  with Cons.IH [of "step s e"] obtain r2
    where r2: "calls s' = calls (step s e) @ r2"
      "session s' = session (step s e) @ sent_packets r2"
    by blast
  from calls_step [of s e] obtain r1
    where r1: "calls (step s e) = calls s @ r1"
      "session (step s e) = session s @ sent_packets r1"
    by blast
  from r1 r2 have "calls s' = calls s @ (r1 @ r2)
      \<and> session s' = session s @ sent_packets (r1 @ r2)"
    by simp
  then show ?case by blast
qed

lemma run_scanned_session:
  "run scanned es = Some s \<Longrightarrow> session s = sent_packets (calls s)"
  using calls_run [of scanned es s] by (auto simp: scanned_def)

lemma run_append:
  "run s es = Some s1 \<Longrightarrow> run s1 es' = Some s2 \<Longrightarrow> run s (es @ es') = Some s2"
  by (induction es arbitrary: s) (auto split: if_splits)

text \<open>The sample limit.\<close>

lemma word64_reach:
  "n < N \<Longrightarrow> (N \<le> n + 1 \<longleftrightarrow> n + 1 = N)" for n N :: "64 word"
  using inc_le [of n N] by auto

lemma budget_complete:
  assumes "di_priv s" and "limit_samples s \<noteq> 0"
    and "status s = SR_ST_ACTIVE \<longrightarrow> num_samples s < limit_samples s"
  shows "status (libusb_complete s c) = SR_ST_ACTIVE
     \<longrightarrow> num_samples (libusb_complete s c) < limit_samples s"
  using assms by (auto simp: api_defs Let_def)

lemma budget_handle:
  "di_priv s \<Longrightarrow> limit_samples s \<noteq> 0
     \<Longrightarrow> status s = SR_ST_ACTIVE \<longrightarrow> num_samples s < limit_samples s
     \<Longrightarrow> status (libusb_handle_events s cs) = SR_ST_ACTIVE
       \<longrightarrow> num_samples (libusb_handle_events s cs) < limit_samples s"
proof (induction cs arbitrary: s)
  case Nil
  then show ?case by simp
next
  case (Cons c cs)
  from Cons.IH [of "libusb_complete s c"] Cons.prems
    budget_complete [OF Cons.prems, of c]
  show ?case by simp
qed

lemma budget_step:
  assumes "keeps_budget e" and "di_priv s" and "limit_samples s \<noteq> 0"
    and "status s = SR_ST_ACTIVE \<longrightarrow> num_samples s < limit_samples s"
  shows "limit_samples (step s e) = limit_samples s
    \<and> (status (step s e) = SR_ST_ACTIVE \<longrightarrow> num_samples (step s e) < limit_samples s)"
proof (cases e)
  case (EvTick t cs)
  let ?s = "stopping_cleanup (deadline_check s t)"
  from assms(2-4) have "di_priv ?s" "limit_samples ?s = limit_samples s"
    "status ?s = SR_ST_ACTIVE \<longrightarrow> num_samples ?s < limit_samples ?s"
    by (auto simp: api_defs Let_def fold_sr_source_remove)
  with budget_handle [of ?s cs] assms(3) EvTick show ?thesis
    by (simp add: handle_events_def)
next
  case (EvConfigSet cap val t)
  with assms show ?thesis
    by (cases cap) (simp_all add: hw_dev_config_set_def)
next
  case (EvStart t pfd ok)
  with assms show ?thesis
    by (simp add: start_defs Let_def)
qed (use assms in \<open>auto simp: hw_dev_close_def hw_dev_acquisition_stop_def\<close>)

lemma budget_run:
  assumes "run s es = Some s'" and "list_all keeps_budget es"
    and "di_priv s" and "limit_samples s \<noteq> 0"
    and "status s = SR_ST_ACTIVE \<longrightarrow> num_samples s < limit_samples s"
  shows "limit_samples s' = limit_samples s
    \<and> (status s' = SR_ST_ACTIVE \<longrightarrow> num_samples s' < limit_samples s)"
  using assms
proof (induction es arbitrary: s)
  case Nil
  then show ?case by simp
next
  case (Cons e es)
  from Cons.prems(1) have r: "run (step s e) es = Some s'"
    by (simp split: if_splits)
  from Cons.prems(2) have k: "keeps_budget e" and ks: "list_all keeps_budget es"
    by simp_all
  note st = budget_step [OF k Cons.prems(3) Cons.prems(4) Cons.prems(5)]
  from Cons.IH [OF r ks] st Cons.prems(3) Cons.prems(4) show ?case
    by simp
qed

lemma budget_outcome:
  assumes "di_priv s" and "status s = SR_ST_ACTIVE" and "limit_samples s \<noteq> 0"
    and "num_samples s < limit_samples s"
  shows "num_samples (rt_outcome s LIBUSB_TRANSFER_COMPLETED 14) = num_samples s + 1
    \<and> num_samples (rt_outcome s LIBUSB_TRANSFER_COMPLETED 14) \<le> limit_samples s
    \<and> status (rt_outcome s LIBUSB_TRANSFER_COMPLETED 14)
        = (if num_samples s + 1 = limit_samples s then SR_ST_STOPPING else SR_ST_ACTIVE)"
  using assms word64_reach [OF assms(4)] inc_le [OF assms(4)]
  by (simp add: rt_outcome_def hw_dev_acquisition_stop_def Let_def)

text \<open>The deadline is not read while the time limit is zero.\<close>

lemma stop_end_time_upd:
  "snd (hw_dev_acquisition_stop (s\<lparr>end_time := x\<rparr>))
     = (snd (hw_dev_acquisition_stop s))\<lparr>end_time := x\<rparr>"
  by (simp add: hw_dev_acquisition_stop_def)

lemma on_transfer_end_time_upd:
  "on_transfer f i (s\<lparr>end_time := x\<rparr>) = (on_transfer f i s)\<lparr>end_time := x\<rparr>"
  by (simp add: on_transfer_def)

lemma outcome_end_time_upd:
  "rt_outcome (s\<lparr>end_time := x\<rparr>) st len = (rt_outcome s st len)\<lparr>end_time := x\<rparr>"
  by (simp add: rt_outcome_def Let_def hw_dev_acquisition_stop_def)

lemma status_on_transfer [simp]: "status (on_transfer f i s) = status s"
  by (simp add: on_transfer_def)

lemma submit_end_time_upd:
  "libusb_submit_transfer i ok (s\<lparr>end_time := x\<rparr>)
     = (libusb_submit_transfer i ok s)\<lparr>end_time := x\<rparr>"
  by (simp add: libusb_submit_transfer_def on_transfer_def Let_def)

lemma status_submit [simp]: "status (libusb_submit_transfer i ok s) = status s"
  by (simp add: libusb_submit_transfer_def on_transfer_def Let_def)

lemma cleanup_end_time_upd:
  "rt_cleanup (s\<lparr>end_time := x\<rparr>) i stale = (rt_cleanup s i stale)\<lparr>end_time := x\<rparr>"
  by (simp add: rt_cleanup_def libusb_free_transfer_def g_free_def transfer_buffer_def
      on_transfer_def Let_def split: option.splits)

lemma resubmit_end_time_upd:
  "rt_resubmit (s\<lparr>end_time := x\<rparr>) i ok stale
     = (rt_resubmit s i ok stale)\<lparr>end_time := x\<rparr>"
  by (simp add: rt_resubmit_def submit_end_time_upd cleanup_end_time_upd
      stop_end_time_upd Let_def)

lemma complete_end_time_upd:
  "libusb_complete (s\<lparr>end_time := x\<rparr>) c = (libusb_complete s c)\<lparr>end_time := x\<rparr>"
  by (simp add: libusb_complete_def receive_transfer_def on_transfer_end_time_upd
      outcome_end_time_upd resubmit_end_time_upd)

lemma handle_end_time_upd:
  "libusb_handle_events (s\<lparr>end_time := x\<rparr>) cs
     = (libusb_handle_events s cs)\<lparr>end_time := x\<rparr>"
  by (induction cs arbitrary: s) (simp_all add: complete_end_time_upd)


lemma stopping_end_time_upd:
  "stopping_cleanup (s\<lparr>end_time := x\<rparr>) = (stopping_cleanup s)\<lparr>end_time := x\<rparr>"
  by (simp add: stopping_cleanup_def hw_dev_close_def fold_sr_source_remove
      sr_session_send_def Let_def)

lemma step_end_time_upd:
  assumes "limit_msec s = 0"
  shows "step (s\<lparr>end_time := x\<rparr>) e = (step s e)\<lparr>end_time := x\<rparr>
     \<or> step (s\<lparr>end_time := x\<rparr>) e = step s e"
proof (cases e)
  case (EvTick t cs)
  with assms show ?thesis
    by (simp add: handle_events_def deadline_check_def stopping_end_time_upd
        handle_end_time_upd)
next
  case (EvConfigSet cap val t)
  then show ?thesis
    by (cases cap) (simp_all add: hw_dev_config_set_def)
next
  case (EvStart t pfd ok)
  then show ?thesis
    by (simp add: start_defs Let_def)
qed (simp_all add: hw_dev_open_def hw_dev_close_def hw_dev_acquisition_stop_def Let_def)

lemma quiet_outcome:
  "limit_samples s = 0 \<Longrightarrow> st \<noteq> LIBUSB_TRANSFER_NO_DEVICE
     \<Longrightarrow> status (rt_outcome s st len) = status s
       \<and> limit_samples (rt_outcome s st len) = 0"
  by (simp add: rt_outcome_def)

lemma quiet_complete:
  assumes "status s = SR_ST_ACTIVE" and "limit_samples s = 0" and "benign c"
  shows "status (libusb_complete s c) = SR_ST_ACTIVE
    \<and> limit_samples (libusb_complete s c) = 0"
proof -
  let ?s = "on_transfer completed (c_transfer c) s"
  from assms have "limit_samples ?s = 0" "status ?s = SR_ST_ACTIVE"
    "c_status c \<noteq> LIBUSB_TRANSFER_NO_DEVICE" "c_resubmit_ok c"
    by (simp_all add: on_transfer_def benign_def)
  with quiet_outcome [of ?s "c_status c" "c_length c"] show ?thesis
    by (simp add: libusb_complete_def receive_transfer_def rt_resubmit_def
        libusb_submit_transfer_def on_transfer_def Let_def)
qed

lemma quiet_handle:
  "status s = SR_ST_ACTIVE \<Longrightarrow> limit_samples s = 0 \<Longrightarrow> list_all benign cs
     \<Longrightarrow> status (libusb_handle_events s cs) = SR_ST_ACTIVE"
  by (induction cs arbitrary: s) (simp_all add: quiet_complete)

subsection \<open>C1: the receive buffer at the terminal completion\<close>

text \<open>
  C1 fails on the code. At a terminal completion (lines 342 to 343 and 349 to 350) the
  handler frees the transfer first and then hands to \<open>g_free\<close> the pointer it reads
  from the freed transfer, where the failing submission of the start (lines 447 to
  448) frees the local pointer \<open>buf\<close>. What is freed is what the freed memory holds.
  An acquisition is stopping with its transfer in flight; the transfer times out, and
  the freed transfer does not hold the pointer any more: after this terminal
  completion the transfer is out of flight and freed once, the acquisition is over with
  its end marker sent, and the 14-byte buffer has not been freed.
\<close>

theorem buffer_freed_through_freed_transfer:
  "run scanned last_completion \<noteq> None
   \<and> status (the (run scanned stopping_in_flight)) = SR_ST_STOPPING
   \<and> map in_flight (transfers (the (run scanned stopping_in_flight))) = [True]
   \<and> transfer_buffer (the (run scanned stopping_in_flight)) 0 None = Some 0
   \<and> transfer_buffer (libusb_free_transfer 0 (the (run scanned stopping_in_flight))) 0 None
       = None
   \<and> status (the (run scanned last_completion)) = SR_ST_INACTIVE
   \<and> session (the (run scanned last_completion))
       = [SR_DF_HEADER 1, SR_DF_META_ANALOG 1, SR_DF_END]
   \<and> map buf_size (transfers (the (run scanned last_completion))) = [14]
   \<and> map in_flight (transfers (the (run scanned last_completion))) = [False]
   \<and> map transfer_frees (transfers (the (run scanned last_completion))) = [1]
   \<and> map buffer_frees (transfers (the (run scanned last_completion))) = [0]"
  by code_simp

subsection \<open>C2: start and a transfer that is already outstanding\<close>

text \<open>
  C2 as stated fails. After one successful start a transfer is in flight; a second
  \<open>hw_dev_acquisition_start\<close> on the same record returns \<open>SR_OK\<close> and leaves two
  transfers in flight.
\<close>

theorem start_twice_counterexample:
  "run scanned started_once \<noteq> None
   \<and> map in_flight (transfers (the (run scanned started_once))) = [True]
   \<and> fst (hw_dev_acquisition_start (the (run scanned started_once)) pfd1 True) = SR_OK
   \<and> map in_flight (transfers (snd
         (hw_dev_acquisition_start (the (run scanned started_once)) pfd1 True)))
       = [True, True]"
  by code_simp

text \<open>
  C2, amended: \<open>hw_dev_acquisition_start\<close> tests neither the status of the record nor
  whether a transfer is outstanding. With the driver initialised its result depends only
  on the submission: \<open>SR_OK\<close> when the new transfer is submitted, \<open>SR_ERR\<close> when not;
  on success one more transfer is in flight beside all earlier ones, and the status
  is left as it was.
\<close>

theorem start_without_running_check:
  assumes "di_priv s"
  shows "fst (hw_dev_acquisition_start s pfd ok) = (if ok then SR_OK else SR_ERR)
    \<and> transfers (snd (hw_dev_acquisition_start s pfd True))
        = transfers s @ [submitted new_transfer]
    \<and> status (snd (hw_dev_acquisition_start s pfd ok)) = status s"
  using assms
  by (simp add: start_defs Let_def)

text \<open>Witness of C2 amended: the state after the first start.\<close>

theorem start_without_running_check_witness:
  "di_priv (the (run scanned started_once))
   \<and> fst (hw_dev_acquisition_start (the (run scanned started_once)) pfd1 True) = SR_OK
   \<and> transfers (snd (hw_dev_acquisition_start (the (run scanned started_once)) pfd1 True))
       = transfers (the (run scanned started_once)) @ [submitted new_transfer]"
proof -
  have h: "di_priv (the (run scanned started_once))"
    by code_simp
  from start_without_running_check [OF h, of pfd1 True] h show ?thesis
    by simp
qed

subsection \<open>C3: the counter and the deadline at start\<close>

text \<open>
  C3 as stated fails. A first acquisition with a time limit counts one sample and is
  stopped; the record is opened and started again. After this second start the counter
  is 1 and the deadline is still the 5000 ms of the first configuration.
\<close>

theorem second_start_counterexample:
  "run scanned two_acquisitions \<noteq> None
   \<and> status (the (run scanned two_acquisitions)) = SR_ST_ACTIVE
   \<and> map in_flight (transfers (the (run scanned two_acquisitions))) = [False, True]
   \<and> num_samples (the (run scanned two_acquisitions)) = 1
   \<and> end_time (the (run scanned two_acquisitions)) = 5000"
  by code_simp

text \<open>
  C3, amended: the counter is zero in the record as the scan creates it;
  \<open>hw_dev_acquisition_start\<close> leaves the counter and the deadline as they are; and
  every event adds to the counter the number of full packets it completes (in 64-bit
  arithmetic), so that no operation subtracts from it.
\<close>

theorem start_keeps_counter:
  "num_samples scanned = 0
   \<and> num_samples (snd (hw_dev_acquisition_start s pfd ok)) = num_samples s
   \<and> end_time (snd (hw_dev_acquisition_start s pfd ok)) = end_time s
   \<and> num_samples (step s e) = num_samples s + of_nat (full_packets e)"
  by (simp add: num_samples_step) (simp add: scanned_def)

subsection \<open>C4: where the deadline is computed\<close>

text \<open>
  C4 as stated fails. The time limit of 5000 ms is set at clock 0 and the acquisition
  starts at 7000 ms: the deadline after the start is 5000 ms, not 12000 ms, and the
  tick 100 ms after the start ends the acquisition.
\<close>

theorem late_start_counterexample:
  "run scanned late_start \<noteq> None
   \<and> end_time (the (run scanned late_start)) = 5000
   \<and> msec_of_usec 7000000 + limit_msec (the (run scanned late_start)) = 12000
   \<and> status (step (the (run scanned late_start)) (EvTick 7100000 [])) = SR_ST_INACTIVE
   \<and> session (step (the (run scanned late_start)) (EvTick 7100000 []))
       = [SR_DF_HEADER 1, SR_DF_META_ANALOG 1, SR_DF_END]"
  by code_simp

text \<open>
  C4, amended: the deadline is computed by \<open>hw_dev_config_set\<close>, as the clock (in ms)
  at the moment the time limit is configured plus the time limit;
  \<open>hw_dev_acquisition_start\<close> leaves the deadline and the time limit unchanged.
\<close>

theorem deadline_set_by_config_set:
  assumes "di_priv s" and "status s = SR_ST_ACTIVE"
  shows "hw_dev_config_set s SR_HWCAP_LIMIT_MSEC val mono_us
      = (SR_OK, s\<lparr>limit_msec := val, end_time := msec_of_usec mono_us + val\<rparr>)
    \<and> end_time (snd (hw_dev_acquisition_start s pfd ok)) = end_time s
    \<and> limit_msec (snd (hw_dev_acquisition_start s pfd ok)) = limit_msec s"
  using assms by (simp add: hw_dev_config_set_def)

text \<open>Witness of C4 amended: an opened device, 5000 ms set at clock 3000 ms.\<close>

theorem deadline_set_by_config_set_witness:
  "di_priv (the (run scanned [EvOpen usb_ok]))
   \<and> status (the (run scanned [EvOpen usb_ok])) = SR_ST_ACTIVE
   \<and> end_time (snd (hw_dev_config_set (the (run scanned [EvOpen usb_ok]))
        SR_HWCAP_LIMIT_MSEC 5000 3000000)) = 8000"
proof -
  have h1: "di_priv (the (run scanned [EvOpen usb_ok]))"
    and h2: "status (the (run scanned [EvOpen usb_ok])) = SR_ST_ACTIVE"
    by code_simp+
  have t: "msec_of_usec 3000000 + 5000 = (8000 :: 64 word)"
    by code_simp
  from deadline_set_by_config_set [OF h1 h2, of 5000 3000000] h1 h2 t show ?thesis
    by simp
qed

subsection \<open>C5: the counter at a completion\<close>

text \<open>
  C5 as stated fails at the end of the 64-bit range: with the counter at
  \<open>2^64 - 1\<close> a full packet takes it to 0.
\<close>

theorem counter_wrap_counterexample:
  "num_samples wrap_state = 18446744073709551615
   \<and> num_samples (receive_transfer wrap_state 0 LIBUSB_TRANSFER_COMPLETED 14 True None) = 0
   \<and> \<not> num_samples wrap_state
        \<le> num_samples (receive_transfer wrap_state 0 LIBUSB_TRANSFER_COMPLETED 14 True None)"
  by code_simp

text \<open>
  C5, amended: a completion adds exactly 1 to the counter (in 64-bit arithmetic) if and
  only if its status is completed and its length is 14, and leaves the counter as it is
  otherwise; an event that completes no full packet leaves the counter unchanged; and
  as long as the counter is below \<open>2^64 - 1\<close> a completion does not make it smaller.
\<close>

theorem counter_at_completion:
  "num_samples (receive_transfer s i st len ok stale)
      = num_samples s + (if st = LIBUSB_TRANSFER_COMPLETED \<and> len = 14 then 1 else 0)
   \<and> (num_samples (receive_transfer s i st len ok stale) = num_samples s + 1
        \<longleftrightarrow> st = LIBUSB_TRANSFER_COMPLETED \<and> len = 14)
   \<and> (num_samples (receive_transfer s i st len ok stale) = num_samples s
        \<longleftrightarrow> \<not> (st = LIBUSB_TRANSFER_COMPLETED \<and> len = 14))
   \<and> (full_packets e = 0 \<longrightarrow> num_samples (step s e) = num_samples s)
   \<and> (num_samples s \<noteq> - 1
        \<longrightarrow> num_samples s \<le> num_samples (receive_transfer s i st len ok stale))"
  by (simp add: num_samples_receive num_samples_step word64_le_succ)

text \<open>Witness of C5 amended: a full packet on a counter of 0, and a stop request.\<close>

theorem counter_at_completion_witness:
  "full_packets EvStop = 0 \<and> num_samples scanned \<noteq> - 1
   \<and> num_samples (step scanned EvStop) = num_samples scanned
   \<and> num_samples scanned
       \<le> num_samples (receive_transfer scanned 0 LIBUSB_TRANSFER_COMPLETED 14 True None)"
proof -
  have h1: "full_packets EvStop = 0"
    by simp
  have h2: "num_samples scanned \<noteq> - 1"
    by (simp add: scanned_def)
  from counter_at_completion [of scanned 0 LIBUSB_TRANSFER_COMPLETED 14 True None EvStop] h1 h2
  show ?thesis by blast
qed

subsection \<open>C6: the sample budget\<close>

text \<open>
  C6 as stated fails. With a sample limit of 2 the first acquisition stops at the
  second sample. The record is opened and started again: the device is active with the
  counter at 2, and the next full packet takes the counter to 3, above the limit, and
  only then triggers the stop.
\<close>

theorem budget_second_acquisition_counterexample:
  "run scanned (budget_two_again @ [EvTick 500000 [packet14 1]]) \<noteq> None
   \<and> status (the (run scanned budget_two_again)) = SR_ST_ACTIVE
   \<and> limit_samples (the (run scanned budget_two_again)) = 2
   \<and> num_samples (the (run scanned budget_two_again)) = 2
   \<and> num_samples (the (run scanned (budget_two_again @ [EvTick 500000 [packet14 1]]))) = 3
   \<and> status (the (run scanned (budget_two_again @ [EvTick 500000 [packet14 1]])))
       = SR_ST_STOPPING"
  by code_simp

text \<open>
  C6, amended: let a sample limit \<open>N > 0\<close> be set and the counter be below \<open>N\<close>
  while the device is active (as in the first acquisition on a scanned record). As
  long as the device is not opened again and the sample limit is not set again, the
  limit stays \<open>N\<close> and the counter is below \<open>N\<close> whenever the device is active, that
  is, before a stop is triggered; and a full packet received while active takes the
  counter to at most \<open>N\<close> and triggers the stop exactly when the counter reaches
  \<open>N\<close>.
\<close>

theorem sample_budget_first_acquisition:
  assumes "di_priv s0" and "limit_samples s0 = N" and "N \<noteq> 0"
    and "status s0 = SR_ST_ACTIVE \<longrightarrow> num_samples s0 < N"
    and "run s0 es = Some s" and "list_all keeps_budget es"
  shows "limit_samples s = N
    \<and> (status s = SR_ST_ACTIVE \<longrightarrow> num_samples s < N
         \<and> num_samples (rt_outcome s LIBUSB_TRANSFER_COMPLETED 14) = num_samples s + 1
         \<and> num_samples (rt_outcome s LIBUSB_TRANSFER_COMPLETED 14) \<le> N
         \<and> (status (rt_outcome s LIBUSB_TRANSFER_COMPLETED 14) = SR_ST_STOPPING
              \<longleftrightarrow> num_samples (rt_outcome s LIBUSB_TRANSFER_COMPLETED 14) = N)
         \<and> (status (rt_outcome s LIBUSB_TRANSFER_COMPLETED 14) = SR_ST_ACTIVE
              \<longleftrightarrow> num_samples (rt_outcome s LIBUSB_TRANSFER_COMPLETED 14) < N))"
proof -
  from assms have inv: "limit_samples s = N"
    "status s = SR_ST_ACTIVE \<longrightarrow> num_samples s < N"
    using budget_run [OF assms(5) assms(6) assms(1)] by simp_all
  have d: "di_priv s"
    using run_di_priv [OF assms(5)] assms(1) by simp
  show ?thesis
  proof (cases "status s = SR_ST_ACTIVE")
    case True
    with inv have lt: "num_samples s < limit_samples s"
      by simp
    from inv(1) assms(3) have nz: "limit_samples s \<noteq> 0"
      by simp
    from budget_outcome [OF d True nz lt] inv True show ?thesis
      by (auto simp: order_less_le)
  next
    case False
    with inv show ?thesis by simp
  qed
qed

text \<open>
  Witness of C6 amended: limit 2; after the first sample the device is active with the
  counter at 1, and the second sample takes it to 2 and stops.
\<close>

theorem sample_budget_first_acquisition_witness:
  "di_priv (the (run scanned budget_two_set))
   \<and> limit_samples (the (run scanned budget_two_set)) = 2
   \<and> num_samples (the (run scanned budget_two_set)) < 2
   \<and> list_all keeps_budget first_sample
   \<and> status (the (run (the (run scanned budget_two_set)) first_sample)) = SR_ST_ACTIVE
   \<and> num_samples (the (run (the (run scanned budget_two_set)) first_sample)) = 1
   \<and> status (rt_outcome (the (run (the (run scanned budget_two_set)) first_sample))
        LIBUSB_TRANSFER_COMPLETED 14) = SR_ST_STOPPING"
proof -
  let ?s0 = "the (run scanned budget_two_set)"
  have h1: "di_priv ?s0" and h2: "limit_samples ?s0 = 2"
    and h4: "status ?s0 = SR_ST_ACTIVE \<longrightarrow> num_samples ?s0 < 2"
    and h5: "run ?s0 first_sample = Some (the (run ?s0 first_sample))"
    and h6: "list_all keeps_budget first_sample"
    by code_simp+
  have h3: "(2 :: 64 word) \<noteq> 0"
    by simp
  have v: "num_samples ?s0 < 2"
    "status (the (run ?s0 first_sample)) = SR_ST_ACTIVE"
    "num_samples (the (run ?s0 first_sample)) = 1"
    "status (rt_outcome (the (run ?s0 first_sample)) LIBUSB_TRANSFER_COMPLETED 14)
       = SR_ST_STOPPING"
    by code_simp+
  from sample_budget_first_acquisition [OF h1 h2 h3 h4 h5 h6] h1 h2 h6 v
  show ?thesis by simp
qed

subsection \<open>C7: the stop request\<close>

text \<open>
  C7: in every state a device record can reach with status active,
  \<open>hw_dev_acquisition_stop\<close> returns \<open>SR_OK\<close> and changes the status to stopping and
  nothing else (the connection, the transfers and their buffers, the limits, the
  counter and the deadline are as before); with any other status it returns the error
  and the state is unchanged. The first part also holds in any state with the driver
  initialised.
\<close>

theorem request_stop_frame:
  "(run scanned es = Some s \<and> status s = SR_ST_ACTIVE \<longrightarrow>
      hw_dev_acquisition_stop s = (SR_OK, s\<lparr>status := SR_ST_STOPPING\<rparr>))
   \<and> (di_priv s \<and> status s = SR_ST_ACTIVE \<longrightarrow>
      hw_dev_acquisition_stop s = (SR_OK, s\<lparr>status := SR_ST_STOPPING\<rparr>))
   \<and> (status s \<noteq> SR_ST_ACTIVE \<longrightarrow> hw_dev_acquisition_stop s = (SR_ERR, s))"
  using run_scanned_di_priv [of es s] by (auto simp: hw_dev_acquisition_stop_def)

text \<open>Witness of C7: the opened device, and the record before it is opened.\<close>

theorem request_stop_frame_witness:
  "run scanned [EvOpen usb_ok] = Some (scanned\<lparr>devhdl := True, status := SR_ST_ACTIVE\<rparr>)
   \<and> hw_dev_acquisition_stop (scanned\<lparr>devhdl := True, status := SR_ST_ACTIVE\<rparr>)
       = (SR_OK, scanned\<lparr>devhdl := True, status := SR_ST_STOPPING\<rparr>)
   \<and> status scanned \<noteq> SR_ST_ACTIVE
   \<and> hw_dev_acquisition_stop scanned = (SR_ERR, scanned)"
proof -
  have h1: "run scanned [EvOpen usb_ok]
      = Some (scanned\<lparr>devhdl := True, status := SR_ST_ACTIVE\<rparr>)"
    by (simp add: hw_dev_open_def usb_ok_def scanned_def)
  have h2: "status scanned \<noteq> SR_ST_ACTIVE"
    by (simp add: scanned_def)
  from request_stop_frame [of "[EvOpen usb_ok]"
      "scanned\<lparr>devhdl := True, status := SR_ST_ACTIVE\<rparr>"]
    request_stop_frame [of "[]" scanned] h1 h2
  show ?thesis by simp
qed

subsection \<open>C8: the order of the notifications\<close>

text \<open>
  C8 as stated fails. When the host closes the device while the acquisition is
  stopping, the device is inactive and no end marker is sent, neither then nor at the
  ticks that follow. When the host starts twice, header and metadata are sent twice.
\<close>

theorem notifications_counterexample:
  "run scanned closed_while_stopping \<noteq> None
   \<and> status (the (run scanned (take 3 closed_while_stopping))) = SR_ST_STOPPING
   \<and> status (the (run scanned closed_while_stopping)) = SR_ST_INACTIVE
   \<and> session (the (run scanned closed_while_stopping))
       = [SR_DF_HEADER 1, SR_DF_META_ANALOG 1]
   \<and> run scanned started_twice \<noteq> None
   \<and> session (the (run scanned started_twice))
       = [SR_DF_HEADER 1, SR_DF_META_ANALOG 1, SR_DF_HEADER 1, SR_DF_META_ANALOG 1]"
  by code_simp

text \<open>
  C8, amended: let an acquisition be started on an active device that a scanned record
  can reach, and let the host, until the acquisition is over, only set limits and
  request stops while the event loop ticks (it does not start again, open or close the
  device). The calls of the start are, in this order, the send of the header, the send
  of the analog metadata with one probe, and the submission of the new transfer, and
  they stay the first calls of the acquisition. The packets among the calls are the
  session, before the start and after. From the start on the session holds, after what
  it held before, the header, the metadata, no sample packet, and the end marker
  exactly when the status is back to inactive, which the tick that finds the device
  stopping brings about.
\<close>

theorem session_order:
  assumes "run scanned es0 = Some s0" and "status s0 = SR_ST_ACTIVE"
    and "run (snd (hw_dev_acquisition_start s0 pfd ok)) es = Some s"
    and "list_all acq_event es"
  shows "calls (snd (hw_dev_acquisition_start s0 pfd ok))
      = calls s0 @ [SessionSend (SR_DF_HEADER 1), SessionSend (SR_DF_META_ANALOG 1),
          SubmitTransfer (length (transfers s0))]
    \<and> take (length (calls s0) + 3) (calls s)
      = calls s0 @ [SessionSend (SR_DF_HEADER 1), SessionSend (SR_DF_META_ANALOG 1),
          SubmitTransfer (length (transfers s0))]
    \<and> session s0 = sent_packets (calls s0)
    \<and> session s = sent_packets (calls s)
    \<and> session s = session s0 @ [SR_DF_HEADER 1, SR_DF_META_ANALOG 1]
        @ (if status s = SR_ST_INACTIVE then [SR_DF_END] else [])"
proof -
  let ?s1 = "snd (hw_dev_acquisition_start s0 pfd ok)"
  let ?first = "[SessionSend (SR_DF_HEADER 1), SessionSend (SR_DF_META_ANALOG 1),
      SubmitTransfer (length (transfers s0))]"
  have d: "di_priv s0"
    using assms(1) by (rule run_scanned_di_priv)
  have h: "status s0 \<noteq> SR_ST_INACTIVE \<longrightarrow> devhdl s0"
    using run_devhdl [OF assms(1)] by (simp add: scanned_def)
  from d have c1: "calls ?s1 = calls s0 @ ?first"
    by (simp add: start_defs Let_def)
  from calls_run [OF assms(3)] obtain r where "calls s = calls ?s1 @ r"
    by blast
  with c1 have c2: "take (length (calls s0) + 3) (calls s) = calls s0 @ ?first"
    by simp
  have p0: "session s0 = sent_packets (calls s0)"
    using assms(1) by (rule run_scanned_session)
  have "run s0 [EvStart 0 pfd ok] = Some ?s1"
    by simp
  from run_append [OF run_append [OF assms(1) this] assms(3)]
  have p: "session s = sent_packets (calls s)"
    by (rule run_scanned_session)
  from d assms(2) h have s1: "di_priv ?s1" "status ?s1 \<noteq> SR_ST_INACTIVE \<longrightarrow> devhdl ?s1"
    "session ?s1 = (session s0 @ [SR_DF_HEADER 1, SR_DF_META_ANALOG 1])
        @ (if status ?s1 = SR_ST_INACTIVE then [SR_DF_END] else [])"
    by (simp_all add: start_defs Let_def)
  from session_run [OF assms(3) assms(4) s1]
  have e: "session s = session s0 @ [SR_DF_HEADER 1, SR_DF_META_ANALOG 1]
        @ (if status s = SR_ST_INACTIVE then [SR_DF_END] else [])"
    by simp
  show ?thesis
    by (intro conjI c1 c2 p0 p e)
qed

text \<open>
  Witness of C8 amended: one sample, a stop request and the last tick; the session is
  header, metadata, end, and the first calls are the two sends and the submission.
\<close>

theorem session_order_witness:
  "status (the (run scanned [EvOpen usb_ok])) = SR_ST_ACTIVE
   \<and> list_all acq_event sample_then_stop
   \<and> take 3 (calls (the (run (snd (hw_dev_acquisition_start
        (the (run scanned [EvOpen usb_ok])) pfd1 True)) sample_then_stop)))
       = [SessionSend (SR_DF_HEADER 1), SessionSend (SR_DF_META_ANALOG 1),
          SubmitTransfer 0]
   \<and> session (the (run (snd (hw_dev_acquisition_start
        (the (run scanned [EvOpen usb_ok])) pfd1 True)) sample_then_stop))
       = [SR_DF_HEADER 1, SR_DF_META_ANALOG 1, SR_DF_END]"
proof -
  let ?s0 = "the (run scanned [EvOpen usb_ok])"
  let ?s1 = "snd (hw_dev_acquisition_start ?s0 pfd1 True)"
  have h1: "run scanned [EvOpen usb_ok] = Some ?s0"
    and h2: "status ?s0 = SR_ST_ACTIVE"
    and h3: "run ?s1 sample_then_stop = Some (the (run ?s1 sample_then_stop))"
    and h4: "list_all acq_event sample_then_stop"
    by code_simp+
  have v: "session ?s0 = []" "calls ?s0 = []" "transfers ?s0 = []"
    "status (the (run ?s1 sample_then_stop)) = SR_ST_INACTIVE"
    by code_simp+
  note order = session_order [OF h1 h2 h3 h4]
  from order [THEN conjunct2, THEN conjunct1] v
  have a: "take 3 (calls (the (run ?s1 sample_then_stop)))
      = [SessionSend (SR_DF_HEADER 1), SessionSend (SR_DF_META_ANALOG 1),
          SubmitTransfer 0]"
    by simp
  from order [THEN conjunct2, THEN conjunct2, THEN conjunct2, THEN conjunct2] v
  have b: "session (the (run ?s1 sample_then_stop))
      = [SR_DF_HEADER 1, SR_DF_META_ANALOG 1, SR_DF_END]"
    by simp
  show ?thesis
    by (intro conjI h2 h4 a b)
qed

subsection \<open>C9: a budget of zero\<close>

text \<open>
  C9: setting a time limit of 0 on a device without time limit changes only the stored
  deadline, and setting a sample limit of 0 on a device without sample limit changes
  nothing. The deadline check calls the stop only with a nonzero time limit; with a
  time limit of 0 it does nothing, and the stored deadline has no effect on any event
  (two states that differ only in the deadline stay so, or become equal). With a sample
  limit of 0 a completed transfer of any length leaves the status as it is. With both
  limits 0 an active device stays active, with both limits 0, through every tick whose
  completions neither report the device gone nor fail to resubmit: the acquisition
  runs until it is stopped.
\<close>

theorem zero_budget_is_unset:
  "(di_priv s \<and> status s = SR_ST_ACTIVE \<and> limit_msec s = 0 \<longrightarrow>
      hw_dev_config_set s SR_HWCAP_LIMIT_MSEC 0 t
        = (SR_OK, s\<lparr>end_time := msec_of_usec t\<rparr>))
   \<and> (di_priv s \<and> status s = SR_ST_ACTIVE \<and> limit_samples s = 0 \<longrightarrow>
      hw_dev_config_set s SR_HWCAP_LIMIT_SAMPLES 0 t = (SR_OK, s))
   \<and> deadline_check s t
       = (if limit_msec s \<noteq> 0 \<and> end_time s <s msec_of_usec t
          then snd (hw_dev_acquisition_stop s) else s)
   \<and> (limit_msec s = 0 \<longrightarrow> deadline_check s t = s
        \<and> (step (s\<lparr>end_time := x\<rparr>) e = (step s e)\<lparr>end_time := x\<rparr>
            \<or> step (s\<lparr>end_time := x\<rparr>) e = step s e))
   \<and> (limit_samples s = 0 \<longrightarrow>
        status (rt_outcome s LIBUSB_TRANSFER_COMPLETED len) = status s)
   \<and> (status s = SR_ST_ACTIVE \<and> limit_msec s = 0 \<and> limit_samples s = 0
        \<and> list_all benign cs \<longrightarrow>
        status (handle_events s t cs) = SR_ST_ACTIVE
        \<and> limit_msec (handle_events s t cs) = 0
        \<and> limit_samples (handle_events s t cs) = 0)"
proof -
  have a: "di_priv s \<and> status s = SR_ST_ACTIVE \<and> limit_msec s = 0 \<longrightarrow>
      hw_dev_config_set s SR_HWCAP_LIMIT_MSEC 0 t
        = (SR_OK, s\<lparr>end_time := msec_of_usec t\<rparr>)"
    by (simp add: hw_dev_config_set_def)
  have b: "di_priv s \<and> status s = SR_ST_ACTIVE \<and> limit_samples s = 0 \<longrightarrow>
      hw_dev_config_set s SR_HWCAP_LIMIT_SAMPLES 0 t = (SR_OK, s)"
    by (simp add: hw_dev_config_set_def)
  have c: "deadline_check s t
       = (if limit_msec s \<noteq> 0 \<and> end_time s <s msec_of_usec t
          then snd (hw_dev_acquisition_stop s) else s)"
    by (simp add: deadline_check_def)
  have d: "limit_msec s = 0 \<longrightarrow> deadline_check s t = s
        \<and> (step (s\<lparr>end_time := x\<rparr>) e = (step s e)\<lparr>end_time := x\<rparr>
            \<or> step (s\<lparr>end_time := x\<rparr>) e = step s e)"
    using step_end_time_upd [of s x e] by (simp add: deadline_check_def)
  have e: "limit_samples s = 0 \<longrightarrow>
        status (rt_outcome s LIBUSB_TRANSFER_COMPLETED len) = status s"
    by (simp add: rt_outcome_def)
  have f: "status s = SR_ST_ACTIVE \<and> limit_msec s = 0 \<and> limit_samples s = 0
        \<and> list_all benign cs \<longrightarrow>
        status (handle_events s t cs) = SR_ST_ACTIVE
        \<and> limit_msec (handle_events s t cs) = 0
        \<and> limit_samples (handle_events s t cs) = 0"
    using quiet_handle [of s cs]
    by (simp add: handle_events_def deadline_check_def stopping_cleanup_def)
  show ?thesis by (intro conjI a b c d e f)
qed

text \<open>
  Witness of C9: the started device without limits; a tick at 5000 ms with a timeout
  and a full packet.
\<close>

theorem zero_budget_is_unset_witness:
  "di_priv (the (run scanned started_once))
   \<and> status (the (run scanned started_once)) = SR_ST_ACTIVE
   \<and> limit_msec (the (run scanned started_once)) = 0
   \<and> limit_samples (the (run scanned started_once)) = 0
   \<and> list_all benign [timed_out 0, packet14 0]
   \<and> hw_dev_config_set (the (run scanned started_once)) SR_HWCAP_LIMIT_SAMPLES 0 0
       = (SR_OK, the (run scanned started_once))
   \<and> deadline_check (the (run scanned started_once)) 5000000
       = the (run scanned started_once)
   \<and> status (handle_events (the (run scanned started_once)) 5000000
        [timed_out 0, packet14 0]) = SR_ST_ACTIVE"
proof -
  let ?s = "the (run scanned started_once)"
  have h: "di_priv ?s" "status ?s = SR_ST_ACTIVE" "limit_msec ?s = 0"
    "limit_samples ?s = 0" "list_all benign [timed_out 0, packet14 0]"
    by code_simp+
  from zero_budget_is_unset [of ?s 0 77 "EvTick 5000000 [timed_out 0, packet14 0]" 14
      "[timed_out 0, packet14 0]"]
    zero_budget_is_unset [of ?s 5000000 77 "EvTick 5000000 [timed_out 0, packet14 0]" 14
      "[timed_out 0, packet14 0]"] h
  show ?thesis by simp
qed

subsection \<open>C10: failing configuration calls\<close>

text \<open>
  C10: \<open>hw_dev_config_set\<close> with a capability that is neither the time limit nor the
  sample limit fails and leaves the whole state, so both limits and the deadline,
  unchanged; on an initialised driver and an active device the error is \<open>SR_ERR_ARG\<close>.
  With the driver uninitialised or the device not active the call returns \<open>SR_ERR\<close>
  and the state is unchanged, whatever the capability.
\<close>

theorem config_set_failures:
  "(cap \<noteq> SR_HWCAP_LIMIT_MSEC \<and> cap \<noteq> SR_HWCAP_LIMIT_SAMPLES \<longrightarrow>
      snd (hw_dev_config_set s cap val mono_us) = s
      \<and> fst (hw_dev_config_set s cap val mono_us) \<noteq> SR_OK
      \<and> (di_priv s \<and> status s = SR_ST_ACTIVE \<longrightarrow>
           hw_dev_config_set s cap val mono_us = (SR_ERR_ARG, s)))
   \<and> (\<not> di_priv s \<or> status s \<noteq> SR_ST_ACTIVE \<longrightarrow>
      hw_dev_config_set s cap val mono_us = (SR_ERR, s))"
  by (cases cap) (simp_all add: hw_dev_config_set_def)

text \<open>
  Witness of C10: an unknown capability on the opened device, and the time limit on
  the record before it is opened.
\<close>

theorem config_set_failures_witness:
  "hw_dev_config_set (scanned\<lparr>devhdl := True, status := SR_ST_ACTIVE\<rparr>)
       (SR_HWCAP_OTHER 77) 5 0
     = (SR_ERR_ARG, scanned\<lparr>devhdl := True, status := SR_ST_ACTIVE\<rparr>)
   \<and> hw_dev_config_set scanned SR_HWCAP_LIMIT_MSEC 5 0 = (SR_ERR, scanned)"
proof -
  have h1: "di_priv (scanned\<lparr>devhdl := True, status := SR_ST_ACTIVE\<rparr>)
      \<and> status (scanned\<lparr>devhdl := True, status := SR_ST_ACTIVE\<rparr>) = SR_ST_ACTIVE"
    by (simp add: scanned_def)
  have h2: "status scanned \<noteq> SR_ST_ACTIVE"
    by (simp add: scanned_def)
  from config_set_failures [of "SR_HWCAP_OTHER 77"
      "scanned\<lparr>devhdl := True, status := SR_ST_ACTIVE\<rparr>" 5 0]
    config_set_failures [of SR_HWCAP_LIMIT_MSEC scanned 5 0] h1 h2
  show ?thesis by simp
qed

end
